theory Spec2Isabelle
  imports Main
begin

unbundle bit_operations_syntax

section \<open>The RMII protocol decoder (pd.py)\<close>

subsection \<open>Constants and data\<close>

definition BITS_PER_BYTE :: int where
  "BITS_PER_BYTE = 8"

definition CHANNEL_INDEX_CLK :: nat where
  "CHANNEL_INDEX_CLK = 0"

definition ANNOTATION_CLASS_INDEX_OCTETS :: nat where
  "ANNOTATION_CLASS_INDEX_OCTETS = 0"

definition ANNOTATION_CLASS_INDEX_DIBITS :: nat where
  "ANNOTATION_CLASS_INDEX_DIBITS = 1"

text \<open>The number of entries of \<^verbatim>\<open>Decoder.channels\<close>: clk, valid, dibit1, dibit0.\<close>

definition num_channels :: nat where
  "num_channels = 4"

text \<open>The values of the option \<^verbatim>\<open>valid_bit_type\<close>.\<close>

datatype valid_bit_type = CRS_DV | TX_EN

datatype py_error = ChannelError | IndexError | ValueError

text \<open>
  An entry of \<^verbatim>\<open>self.dibits\<close>: the Python list \<^verbatim>\<open>[dibit, samplenum, sample_end]\<close>,
  read through the index constants VALUE, SAMPLE_START and SAMPLE_END.
\<close>

record dibit_ann =
  dvalue :: int
  sample_start :: int
  sample_end :: int

text \<open>
  One call \<^verbatim>\<open>self.put(sample_start, sample_end, self.out_ann, [cls, [text]])\<close>.
\<close>

record annotation =
  ann_start :: int
  ann_end :: int
  ann_class :: nat
  ann_text :: "string list"

text \<open>
  The decoder object. The field \<open>out\<close> collects, in order, the annotations handed to
  \<^verbatim>\<open>self.put\<close>.
\<close>

record decoder =
  samplerate :: "int option"
  crs :: int
  dv :: int
  bitcount :: int
  octet :: int
  dibits :: "dibit_ann list"
  out :: "annotation list"

text \<open>
  What one \<^verbatim>\<open>self.wait\<close> delivers: the four pin levels, together with
  \<^verbatim>\<open>self.samplenum\<close> and \<^verbatim>\<open>self.matched\<close> as the framework sets them.
\<close>

record sample =
  clk :: int
  valid :: int
  dibit1 :: int
  dibit0 :: int
  samplenum :: int
  matched :: "bool list"

subsection \<open>String formatting\<close>

definition digit_char :: "nat \<Rightarrow> char" where
  "digit_char d = ''0123456789ABCDEF'' ! d"

function digits_base :: "nat \<Rightarrow> nat \<Rightarrow> string" where
  "digits_base b n =
     (if b < 2 \<or> n < b then [digit_char n]
      else digits_base b (n div b) @ [digit_char (n mod b)])"
  by pat_completeness auto
termination
  by (relation "measure (\<lambda>(b, n). n)") auto

declare digits_base.simps [simp del]

text \<open>Python's \<^verbatim>\<open>'%d' % n\<close>.\<close>

definition format_d :: "int \<Rightarrow> string" where
  "format_d n = (if n < 0 then CHR ''-'' # digits_base 10 (nat (- n)) else digits_base 10 (nat n))"

text \<open>
  Python's \<^verbatim>\<open>'%02X' % n\<close>: uppercase hexadecimal, padded with zeros after the
  sign to a total width of two characters.
\<close>

definition format_02X :: "int \<Rightarrow> string" where
  "format_02X n =
     (if n < 0 then CHR ''-'' # digits_base 16 (nat (- n))
      else let ds = digits_base 16 (nat n) in replicate (2 - length ds) CHR ''0'' @ ds)"

subsection \<open>Decoder state\<close>

definition reset_decoder_state :: "decoder \<Rightarrow> decoder" where
  "reset_decoder_state st = st\<lparr>bitcount := 0, octet := 0, dibits := []\<rparr>"

definition reset :: "decoder \<Rightarrow> decoder" where
  "reset st = reset_decoder_state (st\<lparr>samplerate := None, crs := 0, dv := 0\<rparr>)"

text \<open>
  A decoder as \<^verbatim>\<open>__init__\<close> leaves it; nothing has been emitted yet.
\<close>

definition init_decoder :: decoder where
  "init_decoder =
     reset \<lparr>samplerate = None, crs = 0, dv = 0, bitcount = 0, octet = 0, dibits = [], out = []\<rparr>"

definition put :: "int \<Rightarrow> int \<Rightarrow> nat \<Rightarrow> string list \<Rightarrow> decoder \<Rightarrow> decoder" where
  "put ss es cls txt st =
     st\<lparr>out := out st @ [\<lparr>ann_start = ss, ann_end = es, ann_class = cls, ann_text = txt\<rparr>]\<rparr>"

subsection \<open>Emitting a byte\<close>

text \<open>The loop of \<^verbatim>\<open>putdata\<close> over \<^verbatim>\<open>self.dibits\<close>.\<close>

fun put_dibits :: "dibit_ann list \<Rightarrow> decoder \<Rightarrow> decoder" where
  "put_dibits [] st = st"
| "put_dibits (d # ds) st =
     put_dibits ds
       (put (sample_start d) (sample_end d) ANNOTATION_CLASS_INDEX_DIBITS [format_d (dvalue d)] st)"

text \<open>
  \<^verbatim>\<open>self.dibits[-1]\<close> and \<^verbatim>\<open>self.dibits[0]\<close> raise IndexError on an empty list.
\<close>

definition putdata :: "decoder \<Rightarrow> py_error + decoder" where
  "putdata st =
     (let st1 = put_dibits (dibits st) st in
      case dibits st1 of
        [] \<Rightarrow> Inl IndexError
      | d # ds \<Rightarrow>
          Inr (put (sample_start (last (d # ds))) (sample_end d)
                 ANNOTATION_CLASS_INDEX_OCTETS [format_02X (octet st1)] st1))"

subsection \<open>Handling one di-bit\<close>

text \<open>
  The first part of \<^verbatim>\<open>handle_dibit\<close>: de-multiplexing the valid line. The result
  carries the local variable \<^verbatim>\<open>dv_updated\<close>.
\<close>

definition demux :: "valid_bit_type \<Rightarrow> int \<Rightarrow> decoder \<Rightarrow> bool \<times> decoder" where
  "demux opt v st =
     (if opt = TX_EN then (True, st\<lparr>crs := v, dv := v\<rparr>)
      else if (bitcount st AND 2) = 0 then (False, st\<lparr>crs := v\<rparr>)
      else (True, st\<lparr>dv := v\<rparr>))"

text \<open>
  The part of \<^verbatim>\<open>handle_dibit\<close> from "clock in di-bit" to "advance by one di-bit".
  A negative shift count raises ValueError; indexing an empty list raises IndexError.
\<close>

definition clock_in :: "int \<Rightarrow> int \<Rightarrow> int \<Rightarrow> decoder \<Rightarrow> py_error + decoder" where
  "clock_in sn d1 d0 st =
     (let dibit = (push_bit 1 d1) OR d0 in
      if bitcount st < 0 then Inl ValueError
      else
        let st1 = st\<lparr>octet := octet st OR push_bit (nat (bitcount st)) dibit\<rparr> in
        if bitcount st1 > 0 then
          (case dibits st1 of
             [] \<Rightarrow> Inl IndexError
           | p # ps \<Rightarrow>
               let e = sn + (sn - sample_start p);
                   new = \<lparr>dvalue = dibit, sample_start = sn, sample_end = e\<rparr>
               in Inr (st1\<lparr>dibits := new # p\<lparr>sample_end := sn\<rparr> # ps,
                            bitcount := bitcount st1 + 2\<rparr>))
        else
          Inr (st1\<lparr>dibits := \<lparr>dvalue = dibit, sample_start = sn, sample_end = sn\<rparr> # dibits st1,
                   bitcount := bitcount st1 + 2\<rparr>))"

text \<open>The last part of \<^verbatim>\<open>handle_dibit\<close>: emit completed bytes.\<close>

definition emit_completed :: "decoder \<Rightarrow> py_error + decoder" where
  "emit_completed st =
     (if bitcount st = BITS_PER_BYTE then
        (case putdata st of Inl e \<Rightarrow> Inl e | Inr st1 \<Rightarrow> Inr (reset_decoder_state st1))
      else Inr st)"

definition handle_dibit ::
    "valid_bit_type \<Rightarrow> int \<Rightarrow> int \<Rightarrow> int \<Rightarrow> int \<Rightarrow> int \<Rightarrow> decoder \<Rightarrow> py_error + decoder" where
  "handle_dibit opt sn c v d1 d0 st =
     (case demux opt v st of (dv_updated, st1) \<Rightarrow>
        if dv_updated \<and> dv st1 = 0 then Inr (reset_decoder_state st1)
        else if crs st1 = 0 \<and> dv st1 = 0 then Inr (reset_decoder_state st1)
        else (case clock_in sn d1 d0 st1 of Inl e \<Rightarrow> Inl e | Inr st2 \<Rightarrow> emit_completed st2))"

subsection \<open>Finding clock edges\<close>

definition find_clk_edge ::
    "valid_bit_type \<Rightarrow> sample \<Rightarrow> bool \<Rightarrow> decoder \<Rightarrow> py_error + decoder" where
  "find_clk_edge opt s first st =
     (if first then Inr st
      else if length (matched s) \<le> CHANNEL_INDEX_CLK then Inl IndexError
      else if \<not> (matched s ! CHANNEL_INDEX_CLK) then Inr st
      else if opt = TX_EN then
        (if clk s \<noteq> 0 then Inr st
         else handle_dibit opt (samplenum s) (clk s) (valid s) (dibit1 s) (dibit0 s) st)
      else
        (if clk s = 0 then Inr st
         else handle_dibit opt (samplenum s) (clk s) (valid s) (dibit1 s) (dibit0 s) st))"

subsection \<open>The decode loop\<close>

text \<open>
  The sample source is the list of the samples that successive calls of
  \<^verbatim>\<open>self.wait\<close> deliver; a call takes the head. When the list is used up the
  framework ends the decoder. \<^verbatim>\<open>decode\<close> returns how it ended, the decoder, and the
  samples it never requested.
\<close>

datatype outcome = Raised py_error | EndOfInput

text \<open>The loop over \<^verbatim>\<open>range(len(Decoder.channels))\<close>.\<close>

fun check_channels :: "(nat \<Rightarrow> bool) \<Rightarrow> nat list \<Rightarrow> py_error + unit" where
  "check_channels has_channel [] = Inr ()"
| "check_channels has_channel (c # cs) =
     (if \<not> has_channel c then Inl ChannelError else check_channels has_channel cs)"

fun decode_loop ::
    "valid_bit_type \<Rightarrow> decoder \<Rightarrow> sample list \<Rightarrow> outcome \<times> decoder \<times> sample list" where
  "decode_loop opt st [] = (EndOfInput, st, [])"
| "decode_loop opt st (s # rest) =
     (case find_clk_edge opt s False st of
        Inl e \<Rightarrow> (Raised e, st, rest)
      | Inr st1 \<Rightarrow> decode_loop opt st1 rest)"

definition decode ::
    "(nat \<Rightarrow> bool) \<Rightarrow> valid_bit_type \<Rightarrow> decoder \<Rightarrow> sample list \<Rightarrow> outcome \<times> decoder \<times> sample list" where
  "decode has_channel opt st src =
     (case check_channels has_channel [0..<num_channels] of
        Inl e \<Rightarrow> (Raised e, st, src)
      | Inr _ \<Rightarrow>
          (case src of
             [] \<Rightarrow> (EndOfInput, st, [])
           | s # rest \<Rightarrow>
               (case find_clk_edge opt s True st of
                  Inl e \<Rightarrow> (Raised e, st, rest)
                | Inr st1 \<Rightarrow> decode_loop opt st1 rest)))"

subsection \<open>Runs of accepted samples\<close>

text \<open>
  \<open>handle_dibits\<close> passes a list of samples to \<open>handle_dibit\<close>, one after the other,
  and stops at the first exception.
\<close>

fun handle_dibits :: "valid_bit_type \<Rightarrow> sample list \<Rightarrow> decoder \<Rightarrow> py_error + decoder" where
  "handle_dibits opt [] st = Inr st"
| "handle_dibits opt (s # ss) st =
     (case handle_dibit opt (samplenum s) (clk s) (valid s) (dibit1 s) (dibit0 s) st of
        Inl e \<Rightarrow> Inl e
      | Inr st1 \<Rightarrow> handle_dibits opt ss st1)"

subsection \<open>Notions used in the statements\<close>

text \<open>
  \<open>discards\<close> is the guard of the two early returns of \<^verbatim>\<open>handle_dibit\<close>, taken
  together; \<open>state_inv\<close> is the consistency of the bit counter with the list of di-bit
  records; \<open>accepted\<close> builds a sample that the single wait condition matched.
\<close>

definition discards :: "valid_bit_type \<Rightarrow> int \<Rightarrow> decoder \<Rightarrow> bool" where
  "discards opt v st =
     (case demux opt v st of (dv_updated, st1) \<Rightarrow>
        (dv_updated \<and> dv st1 = 0) \<or> (crs st1 = 0 \<and> dv st1 = 0))"

definition state_inv :: "decoder \<Rightarrow> bool" where
  "state_inv st \<longleftrightarrow>
     (bitcount st = 0 \<or> bitcount st = 2 \<or> bitcount st = 4 \<or> bitcount st = 6) \<and>
     bitcount st = 2 * int (length (dibits st))"

definition accepted :: "int \<Rightarrow> int \<Rightarrow> int \<Rightarrow> int \<Rightarrow> int \<Rightarrow> sample" where
  "accepted c v d1 d0 n =
     \<lparr>clk = c, valid = v, dibit1 = d1, dibit0 = d0, samplenum = n, matched = [True]\<rparr>"

definition overlaps :: "annotation \<Rightarrow> annotation \<Rightarrow> bool" where
  "overlaps a b \<longleftrightarrow> ann_start a < ann_end b \<and> ann_start b < ann_end a"

fun non_overlapping :: "annotation list \<Rightarrow> bool" where
  "non_overlapping [] = True"
| "non_overlapping (a # as) = ((\<forall>b \<in> set as. \<not> overlaps a b) \<and> non_overlapping as)"

definition symbol_event :: "int \<Rightarrow> int \<Rightarrow> string \<Rightarrow> annotation" where
  "symbol_event ss es txt =
     \<lparr>ann_start = ss, ann_end = es, ann_class = ANNOTATION_CLASS_INDEX_DIBITS, ann_text = [txt]\<rparr>"

definition byte_event :: "int \<Rightarrow> int \<Rightarrow> string \<Rightarrow> annotation" where
  "byte_event ss es txt =
     \<lparr>ann_start = ss, ann_end = es, ann_class = ANNOTATION_CLASS_INDEX_OCTETS, ann_text = [txt]\<rparr>"

text \<open>
  A pin level is 0 or 1. \<open>byte_inv\<close> adds to \<open>state_inv\<close> the ranges of the accumulator
  and of the recorded symbol values.
\<close>

definition pin :: "int \<Rightarrow> bool" where
  "pin x \<longleftrightarrow> x = 0 \<or> x = 1"

definition byte_inv :: "decoder \<Rightarrow> bool" where
  "byte_inv st \<longleftrightarrow>
     state_inv st \<and> 0 \<le> octet st \<and> octet st < 2 ^ nat (bitcount st) \<and>
     (\<forall>r \<in> set (dibits st). 0 \<le> dvalue r \<and> dvalue r \<le> 3)"

text \<open>
  A state of a CRS_DV run, used as concrete input: three symbols clocked in at the
  samples 10, 20 and 30.
\<close>

definition partial_byte :: decoder where
  "partial_byte =
     init_decoder\<lparr>crs := 1, dv := 1, bitcount := 6, octet := 13,
       dibits := [\<lparr>dvalue = 0, sample_start = 30, sample_end = 40\<rparr>,
                  \<lparr>dvalue = 3, sample_start = 20, sample_end = 30\<rparr>,
                  \<lparr>dvalue = 1, sample_start = 10, sample_end = 20\<rparr>]\<rparr>"

section \<open>Auxiliary facts\<close>

subsection \<open>Formatting\<close>

lemma digits_base_small: "n < b \<Longrightarrow> digits_base b n = [digit_char n]"
  by (simp add: digits_base.simps)

lemma digits_base_two:
  "2 \<le> b \<Longrightarrow> b \<le> n \<Longrightarrow> n < b * b \<Longrightarrow>
     digits_base b n = [digit_char (n div b), digit_char (n mod b)]"
  by (subst digits_base.simps) (simp add: digits_base_small less_mult_imp_div_less)

lemma format_d_digit: "0 \<le> n \<Longrightarrow> n < 10 \<Longrightarrow> format_d n = [digit_char (nat n)]"
  by (simp add: format_d_def digits_base_small)

lemma format_02X_byte:
  "0 \<le> n \<Longrightarrow> n < 256 \<Longrightarrow> format_02X n = [digit_char (nat n div 16), digit_char (nat n mod 16)]"
  by (cases "nat n < 16")
     (simp_all add: format_02X_def digits_base_small digits_base_two Let_def digit_char_def)

lemma format_small [simp]:
  "format_d 0 = ''0''" "format_d 1 = ''1''" "format_d 2 = ''2''" "format_d 3 = ''3''"
  by (simp_all add: format_d_digit digit_char_def)

subsection \<open>One step and runs\<close>

lemma demux_frame:
  "bitcount (snd (demux opt v st)) = bitcount st"
  "octet (snd (demux opt v st)) = octet st"
  "dibits (snd (demux opt v st)) = dibits st"
  "out (snd (demux opt v st)) = out st"
  by (simp_all add: demux_def)

lemma demux_inv: "state_inv (snd (demux opt v st)) = state_inv st"
  by (simp add: state_inv_def demux_frame)

lemma reset_decoder_state_inv: "state_inv (reset_decoder_state st)"
  by (simp add: state_inv_def reset_decoder_state_def)

lemma init_decoder_inv: "state_inv init_decoder"
  by (simp add: init_decoder_def reset_def reset_decoder_state_inv)

lemma clock_in_ok:
  assumes "state_inv st"
  shows "\<exists>st'. clock_in sn d1 d0 st = Inr st' \<and> bitcount st' = bitcount st + 2 \<and>
           length (dibits st') = Suc (length (dibits st)) \<and>
           crs st' = crs st \<and> dv st' = dv st \<and> out st' = out st"
proof (cases "dibits st")
  case Nil
  with assms have "bitcount st = 0" by (simp add: state_inv_def)
  with Nil show ?thesis by (simp add: clock_in_def Let_def)
next
  case (Cons p ps)
  with assms have "bitcount st > 0" by (simp add: state_inv_def)
  with Cons show ?thesis by (simp add: clock_in_def Let_def)
qed

lemma put_dibits_frame:
  "bitcount (put_dibits ds st) = bitcount st"
  "octet (put_dibits ds st) = octet st"
  "dibits (put_dibits ds st) = dibits st"
  "crs (put_dibits ds st) = crs st"
  "dv (put_dibits ds st) = dv st"
  by (induction ds arbitrary: st) (simp_all add: put_def)

lemma put_dibits_out:
  "out (put_dibits ds st) =
     out st @ map (\<lambda>d. \<lparr>ann_start = sample_start d, ann_end = sample_end d,
                         ann_class = ANNOTATION_CLASS_INDEX_DIBITS,
                         ann_text = [format_d (dvalue d)]\<rparr>) ds"
  by (induction ds arbitrary: st) (simp_all add: put_def)

lemma putdata_ok:
  assumes "dibits st \<noteq> []"
  shows "\<exists>st'. putdata st = Inr st' \<and> crs st' = crs st \<and> dv st' = dv st"
  using assms by (cases "dibits st") (simp_all add: putdata_def Let_def put_dibits_frame put_def)

lemma emit_completed_ok:
  assumes "bitcount st = 2 * int (length (dibits st))"
      and "bitcount st = 2 \<or> bitcount st = 4 \<or> bitcount st = 6 \<or> bitcount st = 8"
  shows "\<exists>st'. emit_completed st = Inr st' \<and> state_inv st' \<and>
           bitcount st' = bitcount st mod 8 \<and> crs st' = crs st \<and> dv st' = dv st"
proof (cases "bitcount st = 8")
  case True
  with assms have "dibits st \<noteq> []" by auto
  from putdata_ok [OF this] obtain st1 where
    "putdata st = Inr st1" "crs st1 = crs st" "dv st1 = dv st" by blast
  with True show ?thesis
    by (simp add: emit_completed_def BITS_PER_BYTE_def reset_decoder_state_inv)
       (simp add: reset_decoder_state_def)
next
  case False
  with assms show ?thesis
    by (auto simp: emit_completed_def BITS_PER_BYTE_def state_inv_def)
qed

lemma handle_dibit_discards:
  assumes "discards opt v st"
  shows "handle_dibit opt sn c v d1 d0 st = Inr (reset_decoder_state (snd (demux opt v st)))"
  using assms by (auto simp: handle_dibit_def discards_def split: prod.splits)

lemma handle_dibit_clocks:
  assumes "\<not> discards opt v st"
  shows "handle_dibit opt sn c v d1 d0 st =
           (case clock_in sn d1 d0 (snd (demux opt v st)) of
              Inl e \<Rightarrow> Inl e | Inr st2 \<Rightarrow> emit_completed st2)"
  using assms by (auto simp: handle_dibit_def discards_def split: prod.splits)

lemma handle_dibit_ok:
  assumes "state_inv st"
  shows "\<exists>st'. handle_dibit opt sn c v d1 d0 st = Inr st' \<and> state_inv st' \<and>
           bitcount st' = (if discards opt v st then 0 else (bitcount st + 2) mod 8) \<and>
           crs st' = crs (snd (demux opt v st)) \<and> dv st' = dv (snd (demux opt v st))"
proof (cases "discards opt v st")
  case True
  then show ?thesis
    by (simp add: handle_dibit_discards reset_decoder_state_inv)
       (simp add: reset_decoder_state_def)
next
  case False
  let ?st1 = "snd (demux opt v st)"
  from assms have inv1: "state_inv ?st1" by (simp add: demux_inv)
  from clock_in_ok [OF inv1, of sn d1 d0] obtain st2 where st2:
    "clock_in sn d1 d0 ?st1 = Inr st2" "bitcount st2 = bitcount st + 2"
    "length (dibits st2) = Suc (length (dibits st))"
    "crs st2 = crs ?st1" "dv st2 = dv ?st1"
    by (auto simp: demux_frame)
  from assms st2 have a: "bitcount st2 = 2 * int (length (dibits st2))"
    by (simp add: state_inv_def)
  from assms st2 have b: "bitcount st2 = 2 \<or> bitcount st2 = 4 \<or> bitcount st2 = 6 \<or> bitcount st2 = 8"
    by (auto simp: state_inv_def)
  from emit_completed_ok [OF a b] obtain st' where
    "emit_completed st2 = Inr st'" "state_inv st'" "bitcount st' = bitcount st2 mod 8"
    "crs st' = crs st2" "dv st' = dv st2" by blast
  with False st2 show ?thesis by (simp add: handle_dibit_clocks)
qed

lemma handle_dibits_append:
  "handle_dibits opt (xs @ ys) st =
     (case handle_dibits opt xs st of Inl e \<Rightarrow> Inl e | Inr st1 \<Rightarrow> handle_dibits opt ys st1)"
  by (induction xs arbitrary: st) (auto split: sum.splits)

lemma handle_dibits_ok:
  "state_inv st \<Longrightarrow> \<exists>st'. handle_dibits opt ss st = Inr st' \<and> state_inv st'"
proof (induction ss arbitrary: st)
  case Nil
  then show ?case by simp
next
  case (Cons s ss)
  from handle_dibit_ok [OF Cons.prems] obtain st1 where
    "handle_dibit opt (samplenum s) (clk s) (valid s) (dibit1 s) (dibit0 s) st = Inr st1"
    "state_inv st1" by blast
  with Cons.IH [of st1] show ?case by simp
qed

subsection \<open>Emitted annotations and the channel check\<close>

lemma put_dibits_eq:
  "put_dibits ds st =
     st\<lparr>out := out st @ map (\<lambda>d. \<lparr>ann_start = sample_start d, ann_end = sample_end d,
                         ann_class = ANNOTATION_CLASS_INDEX_DIBITS,
                         ann_text = [format_d (dvalue d)]\<rparr>) ds\<rparr>"
  by (induction ds arbitrary: st) (simp_all add: put_def)

lemma putdata_eq:
  assumes "dibits st = d # ds"
  shows "putdata st =
     Inr (st\<lparr>out := out st @
            map (\<lambda>d. \<lparr>ann_start = sample_start d, ann_end = sample_end d,
                         ann_class = ANNOTATION_CLASS_INDEX_DIBITS,
                         ann_text = [format_d (dvalue d)]\<rparr>) (d # ds) @
            [\<lparr>ann_start = sample_start (last (d # ds)), ann_end = sample_end d,
               ann_class = ANNOTATION_CLASS_INDEX_OCTETS,
               ann_text = [format_02X (octet st)]\<rparr>]\<rparr>)"
  unfolding putdata_def put_dibits_eq Let_def put_def
  by (simp add: assms)

lemma check_channels_missing:
  "c \<in> set cs \<Longrightarrow> \<not> has_channel c \<Longrightarrow> check_channels has_channel cs = Inl ChannelError"
  by (induction cs) auto

lemma check_channels_present:
  "\<forall>c \<in> set cs. has_channel c \<Longrightarrow> check_channels has_channel cs = Inr ()"
  by (induction cs) auto

lemma putdata_labelled:
  assumes "dibits st = d # ds"
      and "0 \<le> octet st" and "octet st < 256"
      and "\<forall>r \<in> set (d # ds). 0 \<le> dvalue r \<and> dvalue r \<le> 3"
  shows "putdata st =
     Inr (st\<lparr>out := out st @
            map (\<lambda>r. symbol_event (sample_start r) (sample_end r) [''0123'' ! nat (dvalue r)])
              (d # ds) @
            [byte_event (sample_start (last (d # ds))) (sample_end d)
               [''0123456789ABCDEF'' ! (nat (octet st) div 16),
                ''0123456789ABCDEF'' ! (nat (octet st) mod 16)]]\<rparr>)"
proof -
  have sym: "format_d (dvalue r) = [''0123'' ! nat (dvalue r)]" if "r \<in> set (d # ds)" for r
  proof -
    from that assms(4) have "0 \<le> dvalue r" "dvalue r \<le> 3" by auto
    then have "dvalue r = 0 \<or> dvalue r = 1 \<or> dvalue r = 2 \<or> dvalue r = 3" by arith
    then show ?thesis by auto
  qed
  have m: "map (\<lambda>r. \<lparr>ann_start = sample_start r, ann_end = sample_end r,
                         ann_class = ANNOTATION_CLASS_INDEX_DIBITS,
                         ann_text = [format_d (dvalue r)]\<rparr>) (d # ds) =
        map (\<lambda>r. symbol_event (sample_start r) (sample_end r) [''0123'' ! nat (dvalue r)]) (d # ds)"
    by (rule map_cong) (simp_all only: sym symbol_event_def)
  from assms(2,3) have b: "format_02X (octet st) =
      [''0123456789ABCDEF'' ! (nat (octet st) div 16),
       ''0123456789ABCDEF'' ! (nat (octet st) mod 16)]"
    by (simp add: format_02X_byte digit_char_def)
  show ?thesis
    unfolding putdata_eq [OF assms(1)] m b byte_event_def ..
qed

subsection \<open>Ranges of the accumulator and of the symbols\<close>

lemma dibit_range:
  "pin d1 \<Longrightarrow> pin d0 \<Longrightarrow> 0 \<le> push_bit 1 d1 OR d0 \<and> push_bit 1 d1 OR d0 \<le> 3"
  by (auto simp: pin_def)

lemma octet_step:
  fixes oc :: int
  assumes "0 \<le> oc" "oc < 2 ^ n" "0 \<le> d" "d \<le> 3"
  shows "0 \<le> oc OR push_bit n d \<and> oc OR push_bit n d < 2 ^ (n + 2)"
proof
  from assms show "0 \<le> oc OR push_bit n d" by simp
  have "(2::int) ^ n \<le> 2 ^ (n + 2)" by simp
  with assms(2) have a: "oc < 2 ^ (n + 2)" by linarith
  from assms(4) have "d * 2 ^ n \<le> 3 * 2 ^ n" by (simp add: mult_right_mono)
  then have b: "push_bit n d < 2 ^ (n + 2)" by (simp add: push_bit_eq_mult)
  from assms(1) a b show "oc OR push_bit n d < 2 ^ (n + 2)" by (rule OR_upper)
qed

lemma clock_in_byte_inv:
  assumes "byte_inv st" "pin d1" "pin d0"
  shows "\<exists>st2. clock_in sn d1 d0 st = Inr st2 \<and> bitcount st2 = bitcount st + 2 \<and>
           bitcount st2 = 2 * int (length (dibits st2)) \<and>
           0 \<le> octet st2 \<and> octet st2 < 2 ^ nat (bitcount st2) \<and>
           (\<forall>r \<in> set (dibits st2). 0 \<le> dvalue r \<and> dvalue r \<le> 3)"
proof -
  from assms(1) have inv: "state_inv st" and oc: "0 \<le> octet st" "octet st < 2 ^ nat (bitcount st)"
    and vals: "\<forall>r \<in> set (dibits st). 0 \<le> dvalue r \<and> dvalue r \<le> 3"
    by (simp_all add: byte_inv_def)
  from dibit_range [OF assms(2,3)] have d: "0 \<le> push_bit 1 d1 OR d0" "push_bit 1 d1 OR d0 \<le> 3"
    by simp_all
  from inv have nn: "0 \<le> bitcount st" by (auto simp: state_inv_def)
  then have n2: "nat (bitcount st + 2) = nat (bitcount st) + 2" by simp
  from octet_step [OF oc d] have o2:
    "0 \<le> octet st OR push_bit (nat (bitcount st)) (push_bit 1 d1 OR d0)"
    "octet st OR push_bit (nat (bitcount st)) (push_bit 1 d1 OR d0) < 2 ^ nat (bitcount st + 2)"
    by (simp_all only: n2)
  show ?thesis
  proof (cases "dibits st")
    case Nil
    with inv have "bitcount st = 0" by (simp add: state_inv_def)
    with Nil o2 d show ?thesis by (simp add: clock_in_def Let_def)
  next
    case (Cons p ps)
    with inv have "bitcount st > 0" "bitcount st = 2 * int (length (dibits st))"
      by (simp_all add: state_inv_def)
    with Cons o2 d vals show ?thesis by (simp add: clock_in_def Let_def)
  qed
qed

lemma demux_byte_inv: "byte_inv (snd (demux opt v st)) = byte_inv st"
  by (simp add: byte_inv_def demux_inv demux_frame)

lemma reset_decoder_state_byte_inv: "byte_inv (reset_decoder_state st)"
  by (simp add: byte_inv_def reset_decoder_state_inv) (simp add: reset_decoder_state_def)

lemma init_decoder_byte_inv: "byte_inv init_decoder"
  by (simp add: init_decoder_def reset_def reset_decoder_state_byte_inv)

lemma completed_byte_wellformed:
  assumes "byte_inv st" and "bitcount st = 6" and "pin d1" and "pin d0"
  shows "\<exists>st2 d ds. clock_in sn d1 d0 st = Inr st2 \<and> bitcount st2 = BITS_PER_BYTE \<and>
           dibits st2 = d # ds \<and> 0 \<le> octet st2 \<and> octet st2 < 256 \<and>
           (\<forall>r \<in> set (d # ds). 0 \<le> dvalue r \<and> dvalue r \<le> 3)"
proof -
  from clock_in_byte_inv [OF assms(1,3,4), of sn] obtain st2 where st2:
    "clock_in sn d1 d0 st = Inr st2" "bitcount st2 = bitcount st + 2"
    "bitcount st2 = 2 * int (length (dibits st2))"
    "0 \<le> octet st2" "octet st2 < 2 ^ nat (bitcount st2)"
    "\<forall>r \<in> set (dibits st2). 0 \<le> dvalue r \<and> dvalue r \<le> 3"
    by blast
  from st2(2) assms(2) have b: "bitcount st2 = 8" by simp
  with st2(3) obtain d ds where ds: "dibits st2 = d # ds" by (cases "dibits st2") simp_all
  from st2(5) b have "octet st2 < 256" by simp
  with st2 b ds show ?thesis by (simp add: BITS_PER_BYTE_def)
qed

lemma handle_dibit_byte_inv:
  assumes "byte_inv st" and "pin d1" and "pin d0"
  shows "\<exists>st'. handle_dibit opt sn c v d1 d0 st = Inr st' \<and> byte_inv st'"
proof (cases "discards opt v st")
  case True
  then show ?thesis by (simp add: handle_dibit_discards reset_decoder_state_byte_inv)
next
  case False
  let ?st1 = "snd (demux opt v st)"
  from assms(1) have inv1: "byte_inv ?st1" by (simp add: demux_byte_inv)
  then have sinv: "state_inv ?st1" by (simp add: byte_inv_def)
  from clock_in_byte_inv [OF inv1 assms(2,3), of sn] obtain st2 where st2:
    "clock_in sn d1 d0 ?st1 = Inr st2" "bitcount st2 = bitcount ?st1 + 2"
    "bitcount st2 = 2 * int (length (dibits st2))"
    "0 \<le> octet st2" "octet st2 < 2 ^ nat (bitcount st2)"
    "\<forall>r \<in> set (dibits st2). 0 \<le> dvalue r \<and> dvalue r \<le> 3"
    by blast
  show ?thesis
  proof (cases "bitcount st2 = 8")
    case True
    with st2(3) have "dibits st2 \<noteq> []" by auto
    from putdata_ok [OF this] obtain st3 where "putdata st2 = Inr st3" by blast
    with True False st2(1) show ?thesis
      by (simp add: handle_dibit_clocks emit_completed_def BITS_PER_BYTE_def
          reset_decoder_state_byte_inv)
  next
    case ne: False
    with sinv st2(2,3) have "state_inv st2" by (auto simp: state_inv_def)
    with st2 have "byte_inv st2" by (simp add: byte_inv_def)
    with ne False st2(1) show ?thesis
      by (simp add: handle_dibit_clocks emit_completed_def BITS_PER_BYTE_def)
  qed
qed

lemma handle_dibits_byte_inv:
  "byte_inv st \<Longrightarrow> \<forall>s \<in> set ss. pin (dibit1 s) \<and> pin (dibit0 s) \<Longrightarrow>
     \<exists>st'. handle_dibits opt ss st = Inr st' \<and> byte_inv st'"
proof (induction ss arbitrary: st)
  case Nil
  then show ?case by simp
next
  case (Cons s ss)
  from Cons.prems(2) have p: "pin (dibit1 s)" "pin (dibit0 s)" by simp_all
  from handle_dibit_byte_inv [OF Cons.prems(1) p, of opt "samplenum s" "clk s" "valid s"]
  obtain st1 where
    "handle_dibit opt (samplenum s) (clk s) (valid s) (dibit1 s) (dibit0 s) st = Inr st1"
    "byte_inv st1" by blast
  with Cons.IH [of st1] Cons.prems(2) show ?case by simp
qed

subsection \<open>Concrete states\<close>

lemma run_three_symbols:
  "handle_dibits CRS_DV [accepted 1 1 0 1 10, accepted 1 1 1 1 20, accepted 1 1 0 0 30]
       init_decoder =
   Inr (init_decoder\<lparr>crs := 1, dv := 1, bitcount := 6, octet := 13,
          dibits := [\<lparr>dvalue = 0, sample_start = 30, sample_end = 40\<rparr>,
                     \<lparr>dvalue = 3, sample_start = 20, sample_end = 30\<rparr>,
                     \<lparr>dvalue = 1, sample_start = 10, sample_end = 20\<rparr>]\<rparr>)"
  by (simp add: accepted_def handle_dibit_def demux_def reset_decoder_state_def clock_in_def
      emit_completed_def BITS_PER_BYTE_def Let_def init_decoder_def reset_def)

lemma partial_byte_reached:
  "handle_dibits CRS_DV [accepted 1 1 0 1 10, accepted 1 1 1 1 20, accepted 1 1 0 0 30]
     init_decoder = Inr partial_byte"
  unfolding partial_byte_def by (rule run_three_symbols)

lemma partial_byte_inv: "state_inv partial_byte"
  by (simp add: state_inv_def partial_byte_def)

lemma partial_byte_byte_inv: "byte_inv partial_byte"
  by (simp add: byte_inv_def partial_byte_inv) (simp add: partial_byte_def)

section \<open>The claims\<close>

text \<open>
  C1. In TX_EN mode, with the valid line at 1, four accepted samples that deliver the
  symbols 3, 1, 2, 0 in that order, starting from a freshly reset byte state, assemble
  the octet 0x27 = 3 | (1<<2) | (2<<4) | (0<<6). The decoder emits the four symbol events
  "0", "2", "1", "3" (newest first, as \<^verbatim>\<open>putdata\<close> walks the list) and then exactly one
  byte event "27", and is reset afterwards. When the sample numbers increase, the four
  symbol intervals do not overlap.
\<close>

theorem tx_en_scenario:
  "handle_dibits TX_EN
     [accepted c1 1 1 1 n1, accepted c2 1 0 1 n2, accepted c3 1 1 0 n3, accepted c4 1 0 0 n4]
     (reset_decoder_state st) =
   Inr (reset_decoder_state st
          \<lparr>crs := 1, dv := 1,
           out := out st @
             [symbol_event n4 (n4 + (n4 - n3)) ''0'', symbol_event n3 n4 ''2'',
              symbol_event n2 n3 ''1'', symbol_event n1 n2 ''3'',
              byte_event n1 (n4 + (n4 - n3)) ''27'']\<rparr>) \<and>
   (\<exists>st3 st4.
      handle_dibits TX_EN [accepted c1 1 1 1 n1, accepted c2 1 0 1 n2, accepted c3 1 1 0 n3]
        (reset_decoder_state st) = Inr st3 \<and>
      clock_in n4 0 0 (snd (demux TX_EN 1 st3)) = Inr st4 \<and>
      octet st4 = 0x27 \<and>
      octet st4 = 3 OR push_bit 2 1 OR push_bit 4 2 OR push_bit 6 0) \<and>
   (n1 < n2 \<and> n2 < n3 \<and> n3 < n4 \<longrightarrow>
      non_overlapping
        [symbol_event n4 (n4 + (n4 - n3)) ''0'', symbol_event n3 n4 ''2'',
         symbol_event n2 n3 ''1'', symbol_event n1 n2 ''3''])"
proof (intro conjI)
  show "handle_dibits TX_EN
     [accepted c1 1 1 1 n1, accepted c2 1 0 1 n2, accepted c3 1 1 0 n3, accepted c4 1 0 0 n4]
     (reset_decoder_state st) =
   Inr (reset_decoder_state st
          \<lparr>crs := 1, dv := 1,
           out := out st @
             [symbol_event n4 (n4 + (n4 - n3)) ''0'', symbol_event n3 n4 ''2'',
              symbol_event n2 n3 ''1'', symbol_event n1 n2 ''3'',
              byte_event n1 (n4 + (n4 - n3)) ''27'']\<rparr>)"
    by (simp add: accepted_def handle_dibit_def demux_def reset_decoder_state_def clock_in_def
      emit_completed_def BITS_PER_BYTE_def Let_def putdata_def put_def symbol_event_def
      byte_event_def format_02X_byte digit_char_def)
  show "\<exists>st3 st4.
      handle_dibits TX_EN [accepted c1 1 1 1 n1, accepted c2 1 0 1 n2, accepted c3 1 1 0 n3]
        (reset_decoder_state st) = Inr st3 \<and>
      clock_in n4 0 0 (snd (demux TX_EN 1 st3)) = Inr st4 \<and>
      octet st4 = 0x27 \<and>
      octet st4 = 3 OR push_bit 2 1 OR push_bit 4 2 OR push_bit 6 0"
    by (simp add: accepted_def handle_dibit_def demux_def reset_decoder_state_def clock_in_def
      emit_completed_def BITS_PER_BYTE_def Let_def)
  show "n1 < n2 \<and> n2 < n3 \<and> n3 < n4 \<longrightarrow>
      non_overlapping
        [symbol_event n4 (n4 + (n4 - n3)) ''0'', symbol_event n3 n4 ''2'',
         symbol_event n2 n3 ''1'', symbol_event n1 n2 ''3'']"
    by (simp add: overlaps_def symbol_event_def)
qed

theorem tx_en_scenario_witness:
  "handle_dibits TX_EN
     [accepted 0 1 1 1 10, accepted 0 1 0 1 20, accepted 0 1 1 0 30, accepted 0 1 0 0 40]
     init_decoder =
   Inr (init_decoder
          \<lparr>crs := 1, dv := 1,
           out := [symbol_event 40 50 ''0'', symbol_event 30 40 ''2'',
              symbol_event 20 30 ''1'', symbol_event 10 20 ''3'',
              byte_event 10 50 ''27'']\<rparr>) \<and>
   non_overlapping
        [symbol_event 40 50 ''0'', symbol_event 30 40 ''2'',
         symbol_event 20 30 ''1'', symbol_event 10 20 ''3'']"
  using tx_en_scenario [of 0 10 0 20 0 30 0 40 init_decoder]
  by (simp add: init_decoder_def reset_def reset_decoder_state_def)

text \<open>
  C2. After every sequence of accepted samples, starting from a new decoder, the call
  returns, the stored bit counter is one of 0, 2, 4, 6 and equals twice the number of
  di-bit records. One more accepted sample sets the counter to 0 when the sample is
  discarded, and otherwise advances it by 2 modulo 8: the counter runs 0, 2, 4, 6 and is
  back at 0 with the fourth symbol, so that 8 is never stored.
\<close>

theorem bitcount_cycle:
  "\<exists>st st'.
     handle_dibits opt ss init_decoder = Inr st \<and>
     handle_dibits opt (ss @ [s]) init_decoder = Inr st' \<and>
     (bitcount st = 0 \<or> bitcount st = 2 \<or> bitcount st = 4 \<or> bitcount st = 6) \<and>
     bitcount st = 2 * int (length (dibits st)) \<and>
     bitcount st' = (if discards opt (valid s) st then 0 else (bitcount st + 2) mod 8)"
proof -
  from handle_dibits_ok [OF init_decoder_inv, of opt ss] obtain st where
    st: "handle_dibits opt ss init_decoder = Inr st" "state_inv st" by blast
  from handle_dibit_ok [OF st(2), of opt "samplenum s" "clk s" "valid s" "dibit1 s" "dibit0 s"]
  obtain st' where st':
    "handle_dibit opt (samplenum s) (clk s) (valid s) (dibit1 s) (dibit0 s) st = Inr st'"
    "bitcount st' = (if discards opt (valid s) st then 0 else (bitcount st + 2) mod 8)"
    by blast
  from st(1) st'(1) have run: "handle_dibits opt (ss @ [s]) init_decoder = Inr st'"
    by (simp add: handle_dibits_append)
  from st(2) have a: "bitcount st = 0 \<or> bitcount st = 2 \<or> bitcount st = 4 \<or> bitcount st = 6"
    unfolding state_inv_def by (rule conjunct1)
  from st(2) have b: "bitcount st = 2 * int (length (dibits st))"
    unfolding state_inv_def by (rule conjunct2)
  show ?thesis
    by (intro exI conjI) (rule st(1) run a b st'(2))+
qed

theorem bitcount_cycle_witness:
  "\<exists>st st'.
     handle_dibits CRS_DV [accepted 1 1 0 1 10, accepted 1 1 1 1 20, accepted 1 1 0 0 30]
       init_decoder = Inr st \<and>
     handle_dibits CRS_DV
       ([accepted 1 1 0 1 10, accepted 1 1 1 1 20, accepted 1 1 0 0 30] @ [accepted 1 1 1 0 40])
       init_decoder = Inr st' \<and>
     \<not> discards CRS_DV 1 st \<and> bitcount st = 6 \<and> length (dibits st) = 3 \<and> bitcount st' = 0"
proof -
  from bitcount_cycle [of CRS_DV
      "[accepted 1 1 0 1 10, accepted 1 1 1 1 20, accepted 1 1 0 0 30]" "accepted 1 1 1 0 40"]
  obtain st st' where h:
    "handle_dibits CRS_DV [accepted 1 1 0 1 10, accepted 1 1 1 1 20, accepted 1 1 0 0 30]
       init_decoder = Inr st"
    "handle_dibits CRS_DV
       ([accepted 1 1 0 1 10, accepted 1 1 1 1 20, accepted 1 1 0 0 30] @ [accepted 1 1 1 0 40])
       init_decoder = Inr st'"
    "bitcount st' =
       (if discards CRS_DV (valid (accepted 1 1 1 0 40)) st then 0 else (bitcount st + 2) mod 8)"
    by blast
  from h(1) have st: "st = init_decoder\<lparr>crs := 1, dv := 1, bitcount := 6, octet := 13,
          dibits := [\<lparr>dvalue = 0, sample_start = 30, sample_end = 40\<rparr>,
                     \<lparr>dvalue = 3, sample_start = 20, sample_end = 30\<rparr>,
                     \<lparr>dvalue = 1, sample_start = 10, sample_end = 20\<rparr>]\<rparr>"
    by (simp only: run_three_symbols sum.inject)
  have d: "\<not> discards CRS_DV 1 st"
    by (simp add: st discards_def demux_def)
  have v: "valid (accepted 1 1 1 0 40) = 1"
    by (simp add: accepted_def)
  from h(3) d v have "bitcount st' = 0"
    by (simp add: st)
  with h(1,2) d st show ?thesis
    by (intro exI [of _ st] exI [of _ st'] conjI) simp_all
qed

text \<open>
  C3. On every accepted sample, from a consistent state, \<^verbatim>\<open>handle_dibit\<close> returns and
  leaves the flags as the de-multiplexer set them: in TX_EN mode both \<open>crs\<close> and \<open>dv\<close>
  equal the valid line and \<open>dv\<close> counts as updated; in CRS_DV mode with
  \<open>bitcount & 2 = 0\<close> only \<open>crs\<close> is assigned and \<open>dv\<close> does not count as updated; with
  \<open>bitcount & 2 \<noteq> 0\<close> only \<open>dv\<close> is assigned, and it counts as updated.
\<close>

theorem demux_updates_flags:
  assumes "state_inv st"
  shows "\<exists>st'. handle_dibit opt sn c v d1 d0 st = Inr st' \<and>
           (opt = TX_EN \<longrightarrow> fst (demux opt v st) \<and> crs st' = v \<and> dv st' = v) \<and>
           (opt = CRS_DV \<and> bitcount st AND 2 = 0 \<longrightarrow>
              \<not> fst (demux opt v st) \<and> crs st' = v \<and> dv st' = dv st) \<and>
           (opt = CRS_DV \<and> bitcount st AND 2 \<noteq> 0 \<longrightarrow>
              fst (demux opt v st) \<and> dv st' = v \<and> crs st' = crs st)"
proof -
  from handle_dibit_ok [OF assms, of opt sn c v d1 d0] obtain st' where
    "handle_dibit opt sn c v d1 d0 st = Inr st'"
    "crs st' = crs (snd (demux opt v st))" "dv st' = dv (snd (demux opt v st))"
    by blast
  then show ?thesis
    by (cases opt) (auto simp: demux_def)
qed

theorem demux_updates_flags_witness:
  "state_inv init_decoder \<and>
   (\<exists>st'. handle_dibit CRS_DV 10 1 1 0 1 init_decoder = Inr st' \<and>
      \<not> fst (demux CRS_DV 1 init_decoder) \<and> crs st' = 1 \<and> dv st' = 0)"
  using demux_updates_flags [OF init_decoder_inv, of CRS_DV 10 1 1 0 1] init_decoder_inv
  by (simp add: init_decoder_def reset_def reset_decoder_state_def)

text \<open>
  C4. When, after the flags are updated, \<open>dv\<close> was updated in this step and is 0, or
  both \<open>crs\<close> and \<open>dv\<close> are 0, \<^verbatim>\<open>handle_dibit\<close> returns the state with
  \<open>bitcount = 0\<close>, \<open>octet = 0\<close> and no di-bit records, whatever the partial state was;
  nothing is clocked in and nothing is emitted.
\<close>

theorem invalid_or_idle_resets:
  assumes "demux opt v st = (dv_updated, st1)"
      and "(dv_updated \<and> dv st1 = 0) \<or> (crs st1 = 0 \<and> dv st1 = 0)"
  shows "handle_dibit opt sn c v d1 d0 st =
           Inr (st1\<lparr>bitcount := 0, octet := 0, dibits := []\<rparr>) \<and>
         out st1 = out st"
proof
  from assms show "handle_dibit opt sn c v d1 d0 st =
           Inr (st1\<lparr>bitcount := 0, octet := 0, dibits := []\<rparr>)"
    by (auto simp: handle_dibit_def reset_decoder_state_def)
  from demux_frame(4) [of opt v st] assms(1) show "out st1 = out st"
    by simp
qed

theorem invalid_or_idle_resets_witness:
  "demux CRS_DV 0 partial_byte = (True, partial_byte\<lparr>dv := 0\<rparr>) \<and>
   dv (partial_byte\<lparr>dv := 0\<rparr>) = 0 \<and>
   handle_dibit CRS_DV 45 1 0 1 0 partial_byte = Inr (init_decoder\<lparr>crs := 1\<rparr>) \<and>
   out (partial_byte\<lparr>dv := 0\<rparr>) = out partial_byte"
proof -
  have d: "demux CRS_DV 0 partial_byte = (True, partial_byte\<lparr>dv := 0\<rparr>)"
    by (simp add: demux_def partial_byte_def)
  have z: "True \<and> dv (partial_byte\<lparr>dv := 0\<rparr>) = 0 \<or>
      crs (partial_byte\<lparr>dv := 0\<rparr>) = 0 \<and> dv (partial_byte\<lparr>dv := 0\<rparr>) = 0"
    by simp
  from invalid_or_idle_resets [OF d z, of 45 1 1 0] d show ?thesis
    by (simp add: partial_byte_def init_decoder_def reset_def reset_decoder_state_def)
qed

text \<open>
  C5. With all four channels present, \<^verbatim>\<open>decode\<close> passes over the first sample of a
  run, whatever its clock level and flags: the run continues with the decoder unchanged.
  For a later sample whose wait condition has the flag \<open>m\<close>, the loop calls
  \<^verbatim>\<open>handle_dibit\<close> exactly when \<open>m\<close> holds and the clock reads low in TX_EN mode or
  high in CRS_DV mode; every other sample is dropped and the loop goes on with the decoder
  unchanged.
\<close>

theorem first_sample_and_edges:
  assumes "\<forall>c < num_channels. has_channel c"
  shows "decode has_channel opt st (s0 # rest) = decode_loop opt st rest \<and>
         (matched s = m # ms \<longrightarrow>
            decode_loop opt st (s # rest) =
              (if m \<and> ((opt = TX_EN \<and> clk s = 0) \<or> (opt = CRS_DV \<and> clk s \<noteq> 0))
               then (case handle_dibit opt (samplenum s) (clk s) (valid s) (dibit1 s) (dibit0 s) st of
                       Inl e \<Rightarrow> (Raised e, st, rest)
                     | Inr st1 \<Rightarrow> decode_loop opt st1 rest)
               else decode_loop opt st rest))"
proof
  from assms have "\<forall>c \<in> set [0..<num_channels]. has_channel c" by simp
  then have "check_channels has_channel [0..<num_channels] = Inr ()"
    by (rule check_channels_present)
  then show "decode has_channel opt st (s0 # rest) = decode_loop opt st rest"
    by (simp add: decode_def find_clk_edge_def)
  show "matched s = m # ms \<longrightarrow>
            decode_loop opt st (s # rest) =
              (if m \<and> ((opt = TX_EN \<and> clk s = 0) \<or> (opt = CRS_DV \<and> clk s \<noteq> 0))
               then (case handle_dibit opt (samplenum s) (clk s) (valid s) (dibit1 s) (dibit0 s) st of
                       Inl e \<Rightarrow> (Raised e, st, rest)
                     | Inr st1 \<Rightarrow> decode_loop opt st1 rest)
               else decode_loop opt st rest)"
    by (cases opt) (auto simp: find_clk_edge_def CHANNEL_INDEX_CLK_def)
qed

theorem first_sample_and_edges_witness:
  "decode (\<lambda>c. True) TX_EN init_decoder [accepted 0 1 0 1 5, accepted 0 1 1 1 10] =
     (EndOfInput,
      init_decoder\<lparr>crs := 1, dv := 1, bitcount := 2, octet := 3,
        dibits := [\<lparr>dvalue = 3, sample_start = 10, sample_end = 10\<rparr>]\<rparr>, []) \<and>
   decode (\<lambda>c. True) TX_EN init_decoder [accepted 0 1 0 1 5, accepted 1 1 1 1 10] =
     (EndOfInput, init_decoder, []) \<and>
   decode (\<lambda>c. True) CRS_DV init_decoder [accepted 1 1 0 1 5, accepted 0 1 1 1 10] =
     (EndOfInput, init_decoder, [])"
proof -
  have a: "\<forall>c < num_channels. (\<lambda>c. True) c" by simp
  have m: "matched (accepted c v d1 d0 n) = True # []" for c v d1 d0 n
    by (simp add: accepted_def)
  from first_sample_and_edges [OF a, of TX_EN init_decoder "accepted 0 1 0 1 5"
      "[accepted 0 1 1 1 10]" "accepted 0 1 1 1 10" True "[]"]
    first_sample_and_edges [OF a, of TX_EN init_decoder "accepted 0 1 0 1 5"
      "[accepted 1 1 1 1 10]" "accepted 1 1 1 1 10" True "[]"]
    first_sample_and_edges [OF a, of CRS_DV init_decoder "accepted 1 1 0 1 5"
      "[accepted 0 1 1 1 10]" "accepted 0 1 1 1 10" True "[]"]
  show ?thesis
    by (simp add: accepted_def handle_dibit_def demux_def reset_decoder_state_def clock_in_def
      emit_completed_def BITS_PER_BYTE_def Let_def init_decoder_def reset_def find_clk_edge_def
      CHANNEL_INDEX_CLK_def)
qed






text \<open>
  C8. When the fourth symbol of a byte is clocked in (\<open>bitcount = 6\<close>, the sample is not
  discarded, the data pins are 0 or 1), \<^verbatim>\<open>handle_dibit\<close> emits four symbol events, newest
  first, each labelled with the decimal digit of its value, and then one byte event from
  the start of the oldest record \<open>r\<close> to the end of the newest record, labelled with the
  two uppercase hexadecimal digits of the assembled octet; then the byte state is reset.
  The hypothesis \<open>byte_inv\<close> holds in every state that a run with such pins reaches
  (\<open>handle_dibits_byte_inv\<close>).
\<close>

theorem byte_completion_events:
  assumes "byte_inv st" and "bitcount st = 6" and "pin d1" and "pin d0"
      and "\<not> discards opt v st"
  shows "\<exists>p q r. dibits st = [p, q, r] \<and>
     handle_dibit opt sn c v d1 d0 st =
       Inr (reset_decoder_state
         ((snd (demux opt v st))\<lparr>out := out st @
            [symbol_event sn (sn + (sn - sample_start p)) [''0123'' ! nat (push_bit 1 d1 OR d0)],
             symbol_event (sample_start p) sn [''0123'' ! nat (dvalue p)],
             symbol_event (sample_start q) (sample_end q) [''0123'' ! nat (dvalue q)],
             symbol_event (sample_start r) (sample_end r) [''0123'' ! nat (dvalue r)],
             byte_event (sample_start r) (sn + (sn - sample_start p))
               [''0123456789ABCDEF'' !
                  (nat (octet st OR push_bit 6 (push_bit 1 d1 OR d0)) div 16),
                ''0123456789ABCDEF'' !
                  (nat (octet st OR push_bit 6 (push_bit 1 d1 OR d0)) mod 16)]]\<rparr>))"
proof -
  let ?st1 = "snd (demux opt v st)"
  let ?new = "\<lparr>dvalue = push_bit 1 d1 OR d0, sample_start = sn,
                sample_end = sn + (sn - sample_start (hd (dibits st)))\<rparr>"
  from assms(1) have inv1: "byte_inv ?st1" by (simp add: demux_byte_inv)
  from assms(2) have b1: "bitcount ?st1 = 6" by (simp add: demux_frame)
  from assms(1,2) have "length (dibits st) = 3" by (simp add: byte_inv_def state_inv_def)
  then obtain p q r where pqr: "dibits st = [p, q, r]"
    by (auto simp: length_Suc_conv numeral_3_eq_3)
  define st2 where "st2 =
    ?st1\<lparr>octet := octet st OR push_bit 6 (push_bit 1 d1 OR d0),
          dibits := [\<lparr>dvalue = push_bit 1 d1 OR d0, sample_start = sn,
                      sample_end = sn + (sn - sample_start p)\<rparr>, p\<lparr>sample_end := sn\<rparr>, q, r],
          bitcount := 8\<rparr>"
  have ci: "clock_in sn d1 d0 ?st1 = Inr st2"
    by (simp add: clock_in_def Let_def assms(2) demux_frame pqr st2_def)
  from completed_byte_wellformed [OF inv1 b1 assms(3,4), of sn] ci
  have rng: "0 \<le> octet st2" "octet st2 < 256"
    "\<forall>x \<in> set (dibits st2). 0 \<le> dvalue x \<and> dvalue x \<le> 3"
    by auto
  have ds: "dibits st2 =
      \<lparr>dvalue = push_bit 1 d1 OR d0, sample_start = sn,
         sample_end = sn + (sn - sample_start p)\<rparr> # [p\<lparr>sample_end := sn\<rparr>, q, r]"
    by (simp add: st2_def)
  from rng(3) have vals: "\<forall>x \<in> set (\<lparr>dvalue = push_bit 1 d1 OR d0, sample_start = sn,
         sample_end = sn + (sn - sample_start p)\<rparr> # [p\<lparr>sample_end := sn\<rparr>, q, r]).
       0 \<le> dvalue x \<and> dvalue x \<le> 3"
    by (simp only: ds)
  have pd: "putdata st2 = Inr (st2\<lparr>out := out st @
            [symbol_event sn (sn + (sn - sample_start p)) [''0123'' ! nat (push_bit 1 d1 OR d0)],
             symbol_event (sample_start p) sn [''0123'' ! nat (dvalue p)],
             symbol_event (sample_start q) (sample_end q) [''0123'' ! nat (dvalue q)],
             symbol_event (sample_start r) (sample_end r) [''0123'' ! nat (dvalue r)],
             byte_event (sample_start r) (sn + (sn - sample_start p))
               [''0123456789ABCDEF'' !
                  (nat (octet st OR push_bit 6 (push_bit 1 d1 OR d0)) div 16),
                ''0123456789ABCDEF'' !
                  (nat (octet st OR push_bit 6 (push_bit 1 d1 OR d0)) mod 16)]]\<rparr>)"
    using putdata_labelled [OF ds rng(1,2) vals]
    by (simp add: st2_def demux_frame)
  have "handle_dibit opt sn c v d1 d0 st =
      Inr (reset_decoder_state (st2\<lparr>out := out st @
            [symbol_event sn (sn + (sn - sample_start p)) [''0123'' ! nat (push_bit 1 d1 OR d0)],
             symbol_event (sample_start p) sn [''0123'' ! nat (dvalue p)],
             symbol_event (sample_start q) (sample_end q) [''0123'' ! nat (dvalue q)],
             symbol_event (sample_start r) (sample_end r) [''0123'' ! nat (dvalue r)],
             byte_event (sample_start r) (sn + (sn - sample_start p))
               [''0123456789ABCDEF'' !
                  (nat (octet st OR push_bit 6 (push_bit 1 d1 OR d0)) div 16),
                ''0123456789ABCDEF'' !
                  (nat (octet st OR push_bit 6 (push_bit 1 d1 OR d0)) mod 16)]]\<rparr>))"
    unfolding handle_dibit_clocks [OF assms(5)] ci
    by (simp add: emit_completed_def BITS_PER_BYTE_def pd) (simp add: st2_def)
  then have "handle_dibit opt sn c v d1 d0 st =
      Inr (reset_decoder_state (?st1\<lparr>out := out st @
            [symbol_event sn (sn + (sn - sample_start p)) [''0123'' ! nat (push_bit 1 d1 OR d0)],
             symbol_event (sample_start p) sn [''0123'' ! nat (dvalue p)],
             symbol_event (sample_start q) (sample_end q) [''0123'' ! nat (dvalue q)],
             symbol_event (sample_start r) (sample_end r) [''0123'' ! nat (dvalue r)],
             byte_event (sample_start r) (sn + (sn - sample_start p))
               [''0123456789ABCDEF'' !
                  (nat (octet st OR push_bit 6 (push_bit 1 d1 OR d0)) div 16),
                ''0123456789ABCDEF'' !
                  (nat (octet st OR push_bit 6 (push_bit 1 d1 OR d0)) mod 16)]]\<rparr>))"
    by (simp add: st2_def reset_decoder_state_def)
  with pqr show ?thesis by blast
qed

theorem byte_completion_events_witness:
  "byte_inv partial_byte \<and> bitcount partial_byte = 6 \<and> pin 1 \<and> pin 0 \<and>
   \<not> discards CRS_DV 1 partial_byte \<and>
   handle_dibit CRS_DV 45 1 1 1 0 partial_byte =
     Inr (init_decoder\<lparr>crs := 1, dv := 1,
       out := [symbol_event 45 60 ''2'', symbol_event 30 45 ''0'',
               symbol_event 20 30 ''3'', symbol_event 10 20 ''1'', byte_event 10 60 ''8D'']\<rparr>)"
proof -
  have b: "bitcount partial_byte = 6" by (simp add: partial_byte_def)
  have p: "pin 1" "pin 0" by (simp_all add: pin_def)
  have d: "\<not> discards CRS_DV 1 partial_byte"
    by (simp add: discards_def demux_def partial_byte_def)
  from byte_completion_events [OF partial_byte_byte_inv b p d, of 45 1]
  obtain p' q r where h: "dibits partial_byte = [p', q, r]"
    "handle_dibit CRS_DV 45 1 1 1 0 partial_byte =
       Inr (reset_decoder_state
         ((snd (demux CRS_DV 1 partial_byte))\<lparr>out := out partial_byte @
            [symbol_event 45 (45 + (45 - sample_start p')) [''0123'' ! nat (push_bit 1 1 OR 0)],
             symbol_event (sample_start p') 45 [''0123'' ! nat (dvalue p')],
             symbol_event (sample_start q) (sample_end q) [''0123'' ! nat (dvalue q)],
             symbol_event (sample_start r) (sample_end r) [''0123'' ! nat (dvalue r)],
             byte_event (sample_start r) (45 + (45 - sample_start p'))
               [''0123456789ABCDEF'' !
                  (nat (octet partial_byte OR push_bit 6 (push_bit 1 1 OR 0)) div 16),
                ''0123456789ABCDEF'' !
                  (nat (octet partial_byte OR push_bit 6 (push_bit 1 1 OR 0)) mod 16)]]\<rparr>))"
    by blast
  from h(1) have pqr: "p' = \<lparr>dvalue = 0, sample_start = 30, sample_end = 40\<rparr>"
    "q = \<lparr>dvalue = 3, sample_start = 20, sample_end = 30\<rparr>"
    "r = \<lparr>dvalue = 1, sample_start = 10, sample_end = 20\<rparr>"
    by (simp_all add: partial_byte_def)
  have "handle_dibit CRS_DV 45 1 1 1 0 partial_byte =
     Inr (init_decoder\<lparr>crs := 1, dv := 1,
       out := [symbol_event 45 60 ''2'', symbol_event 30 45 ''0'',
               symbol_event 20 30 ''3'', symbol_event 10 20 ''1'', byte_event 10 60 ''8D'']\<rparr>)"
    unfolding h(2) pqr
    by (simp add: partial_byte_def demux_def reset_decoder_state_def init_decoder_def reset_def)
  with partial_byte_byte_inv b p d show ?thesis by simp
qed


text \<open>
  C9. When one of the four channels is absent, \<^verbatim>\<open>decode\<close> raises ChannelError with
  the decoder unchanged and the whole sample source still unread.
\<close>

theorem missing_channel_fails_first:
  assumes "c < num_channels" and "\<not> has_channel c"
  shows "decode has_channel opt st src = (Raised ChannelError, st, src)"
proof -
  from assms(1) have "c \<in> set [0..<num_channels]" by simp
  from check_channels_missing [of c "[0..<num_channels]" has_channel, OF this assms(2)]
  show ?thesis
    by (simp add: decode_def)
qed

theorem missing_channel_fails_first_witness:
  "3 < num_channels \<and> \<not> (\<lambda>c. c \<noteq> 3) 3 \<and>
   decode (\<lambda>c. c \<noteq> 3) CRS_DV init_decoder [accepted 1 1 1 1 10, accepted 1 1 0 1 20] =
     (Raised ChannelError, init_decoder, [accepted 1 1 1 1 10, accepted 1 1 0 1 20])"
proof -
  have a: "(3::nat) < num_channels" by (simp add: num_channels_def)
  have b: "\<not> (\<lambda>c::nat. c \<noteq> 3) 3" by simp
  from missing_channel_fails_first [of 3 "\<lambda>c. c \<noteq> 3", OF a b] a b show ?thesis
    by blast
qed

text \<open>
  C10. \<^verbatim>\<open>reset_decoder_state\<close> keeps \<open>crs\<close> and \<open>dv\<close>; only \<^verbatim>\<open>reset\<close> clears them.
  After any step of \<^verbatim>\<open>handle_dibit\<close>, discarding, clocking in or completing a byte, the
  flags are those the de-multiplexer set. In CRS_DV mode at a carrier-sense phase
  (\<open>bitcount & 2 = 0\<close>) \<open>dv\<close> is not assigned, and the sample is discarded exactly when
  the valid line is 0 and the \<open>dv\<close> left from before is 0.
\<close>

theorem flags_survive_reset:
  "crs (reset_decoder_state st) = crs st \<and> dv (reset_decoder_state st) = dv st \<and>
   crs (reset st) = 0 \<and> dv (reset st) = 0 \<and>
   (state_inv st \<longrightarrow>
      (\<exists>st'. handle_dibit opt sn c v d1 d0 st = Inr st' \<and>
         crs st' = crs (snd (demux opt v st)) \<and> dv st' = dv (snd (demux opt v st)))) \<and>
   (bitcount st AND 2 = 0 \<longrightarrow>
      dv (snd (demux CRS_DV v st)) = dv st \<and>
      discards CRS_DV v st = (v = 0 \<and> dv st = 0))"
proof (intro conjI impI)
  assume "state_inv st"
  from handle_dibit_ok [OF this, of opt sn c v d1 d0]
  show "\<exists>st'. handle_dibit opt sn c v d1 d0 st = Inr st' \<and>
         crs st' = crs (snd (demux opt v st)) \<and> dv st' = dv (snd (demux opt v st))"
    by blast
qed (simp_all add: reset_decoder_state_def reset_def discards_def demux_def)

theorem flags_survive_reset_witness:
  "state_inv (reset_decoder_state partial_byte) \<and>
   bitcount (reset_decoder_state partial_byte) AND 2 = 0 \<and>
   dv (reset_decoder_state partial_byte) = 1 \<and>
   \<not> discards CRS_DV 0 (reset_decoder_state partial_byte) \<and>
   discards CRS_DV 0 init_decoder \<and>
   (\<exists>st'. handle_dibit CRS_DV 50 1 0 1 1 (reset_decoder_state partial_byte) = Inr st' \<and>
      crs st' = 0 \<and> dv st' = 1)"
proof -
  have i: "state_inv (reset_decoder_state partial_byte)"
    by (rule reset_decoder_state_inv)
  have p: "bitcount (reset_decoder_state partial_byte) AND 2 = 0"
    "bitcount init_decoder AND 2 = 0"
    "dv (reset_decoder_state partial_byte) = 1" "dv init_decoder = 0"
    by (simp_all add: reset_decoder_state_def partial_byte_def init_decoder_def reset_def)
  have c: "crs (snd (demux CRS_DV 0 (reset_decoder_state partial_byte))) = 0"
    by (simp add: demux_def reset_decoder_state_def)
  from flags_survive_reset [of "reset_decoder_state partial_byte" CRS_DV 50 1 0 1 1]
    flags_survive_reset [of init_decoder CRS_DV 50 1 0 1 1] i p c
  show ?thesis by auto
qed

end
